theory Spec2Isabelle
  imports
    Complex_Main
    "HOL-Library.Sublist"
    "HOL-Library.List_Lexorder"
    "HOL-Library.Char_ord"
begin

section \<open>Data model of \<open>gerapy_auto_extractor/extractors/list.py\<close>\<close>

text \<open>
  The list extractor reads decorated DOM elements. Only the fields that
  \<open>list.py\<close> reads are kept. A finite double is the real number it stands
  for, and comparisons of doubles are comparisons of these numbers; the
  operations that round (arithmetic on doubles, \<open>np.exp\<close>, \<open>np.log10\<close>,
  \<open>math.sqrt\<close>, \<open>np.mean\<close>) are the fields of \<open>float_ops\<close>, so that what
  is proved holds for the rounding of the machine as for exact arithmetic. The
  one place where a float can be NaN by construction (\<open>np.mean\<close> of an empty
  list) is modelled with \<open>None\<close>. Python strings are \<open>string\<close>, ordered
  lexicographically by character code as Python orders \<open>str\<close>.
\<close>

text \<open>An anchor descendant: its text, its attribute dictionary and its tag path.\<close>

record anchor =
  anchor_text :: string
  attrib :: "string \<rightharpoonup> string"
  path :: string

text \<open>A decorated element, as produced by the DOM layer.\<close>

record element =
  number_of_siblings :: int
  parent_selector :: string
  a_descendants_group_text_min_length :: int
  a_descendants_group_text_max_length :: int
  similarity_with_siblings :: real
  a_descendants :: "anchor list"

text \<open>One output record, the dictionary \<open>{'title': title, 'url': url}\<close>.\<close>

record item =
  title :: string
  url :: string

text \<open>The fields set by \<open>ListExtractor.__init__\<close>.\<close>

record list_extractor =
  min_number :: int
  min_length :: int
  max_length :: int
  similarity_threshold :: real

text \<open>
  The module-level default instance: \<open>LIST_MIN_NUMBER = 5\<close>,
  \<open>LIST_MIN_LENGTH = 8\<close>, \<open>LIST_MAX_LENGTH = 35\<close>, \<open>SIMILARITY_THRESHOLD = 0.8\<close>.
\<close>

definition default_extractor :: list_extractor where
  "default_extractor =
     \<lparr>min_number = 5, min_length = 8, max_length = 35, similarity_threshold = 8 / 10\<rparr>"

text \<open>\<open>self.avg_length = (self.min_length + self.max_length) / 2\<close> (true division).\<close>

definition avg_length :: "list_extractor \<Rightarrow> real" where
  "avg_length self = (real_of_int (min_length self) + real_of_int (max_length self)) / 2"

text \<open>The exceptions that the modelled code can raise.\<close>

datatype error = KeyError | ValueError

section \<open>Python dictionaries with insertion order\<close>

text \<open>
  A \<open>dict\<close> is an association list with distinct keys in insertion order.
  \<open>d[k].append(v)\<close> on a \<open>defaultdict(list)\<close> appends to the list at an
  existing key, or inserts the key last with the list \<open>[v]\<close>.
\<close>

fun dict_append :: "'k \<Rightarrow> 'v \<Rightarrow> ('k \<times> 'v list) list \<Rightarrow> ('k \<times> 'v list) list" where
  "dict_append k v [] = [(k, [v])]"
| "dict_append k v ((k', vs) # d) =
     (if k = k' then (k', vs @ [v]) # d else (k', vs) # dict_append k v d)"

text \<open>
  \<open>del d[k]\<close>. In \<open>_build_clusters\<close> the key is always present: the loop runs
  over the dictionary's own keys, each once.
\<close>

definition dict_del :: "'k \<Rightarrow> ('k \<times> 'v) list \<Rightarrow> ('k \<times> 'v) list" where
  "dict_del k d = filter (\<lambda>kv. fst kv \<noteq> k) d"

section \<open>Arithmetic on doubles\<close>

text \<open>
  The operations on doubles that the source uses: \<open>-\<close>, \<open>*\<close>, \<open>/\<close> and
  \<open>**\<close> on floats, \<open>np.exp\<close>, \<open>np.log10\<close>, \<open>math.sqrt\<close>, the constant
  \<open>np.pi\<close>, and \<open>np.mean\<close> on a non-empty list. Each returns the double
  that the machine computes, which need not be the exact result.
\<close>

record float_ops =
  fsub :: "real \<Rightarrow> real \<Rightarrow> real"
  fmul :: "real \<Rightarrow> real \<Rightarrow> real"
  fdiv :: "real \<Rightarrow> real \<Rightarrow> real"
  fpow :: "real \<Rightarrow> nat \<Rightarrow> real"
  np_exp :: "real \<Rightarrow> real"
  np_log10 :: "real \<Rightarrow> real"
  math_sqrt :: "real \<Rightarrow> real"
  np_pi :: real
  mean_of :: "real list \<Rightarrow> real"

text \<open>The operations without rounding.\<close>

definition exact_arith :: float_ops where
  "exact_arith =
     \<lparr>fsub = (\<lambda>a b. a - b), fmul = (\<lambda>a b. a * b), fdiv = (\<lambda>a b. a / b),
      fpow = (\<lambda>a n. a ^ n), np_exp = exp, np_log10 = log 10, math_sqrt = sqrt,
      np_pi = pi, mean_of = (\<lambda>xs. sum_list xs / real (length xs))\<rparr>"

text \<open>\<open>np.mean\<close>: the mean of an empty list is NaN, written \<open>None\<close>.\<close>

definition np_mean :: "float_ops \<Rightarrow> real list \<Rightarrow> real option" where
  "np_mean fl xs = (if xs = [] then None else Some (mean_of fl xs))"

section \<open>Title likelihood\<close>

definition sigma :: real where
  "sigma = 6"

text \<open>
  The likelihood as a function of a real length:
  \<open>exp(-(len - avg_length)^2 / (2 sigma^2)) / (sqrt(2 pi) sigma)\<close>.
\<close>

definition probability_of_title_with_length :: "list_extractor \<Rightarrow> real \<Rightarrow> real" where
  "probability_of_title_with_length self len =
     exp (- 1 * ((len - avg_length self) ^ 2) / (2 * (sigma ^ 2))) / (sqrt (2 * pi) * sigma)"

text \<open>
  The likelihood as \<open>_probability_of_title_with_length\<close> computes it, on the
  length of a text:
  \<open>np.exp(-1 * ((length - self.avg_length) ** 2) / (2 * (sigma ** 2)))
     / (math.sqrt(2 * np.pi) * sigma)\<close>,
  with \<open>self.avg_length = (self.min_length + self.max_length) / 2\<close>. The sum
  of the two integers and \<open>2 * (sigma ** 2)\<close> are integer arithmetic.
\<close>

definition float_avg_length :: "float_ops \<Rightarrow> list_extractor \<Rightarrow> real" where
  "float_avg_length fl self = fdiv fl (real_of_int (min_length self + max_length self)) 2"

definition float_probability_of_title_with_length ::
  "float_ops \<Rightarrow> list_extractor \<Rightarrow> nat \<Rightarrow> real" where
  "float_probability_of_title_with_length fl self len =
     fdiv fl
       (np_exp fl
          (fdiv fl (fmul fl (- 1) (fpow fl (fsub fl (real len) (float_avg_length fl self)) 2))
             (2 * (sigma ^ 2))))
       (fmul fl (math_sqrt fl (fmul fl 2 (np_pi fl))) sigma)"

section \<open>Candidate filter and tree cut (\<open>_build_clusters\<close>)\<close>

text \<open>The four \<open>continue\<close> tests of the first loop, in the source's order.\<close>

definition is_candidate :: "list_extractor \<Rightarrow> element \<Rightarrow> bool" where
  "is_candidate self descendant =
     (if number_of_siblings descendant + 1 < min_number self then False
      else if a_descendants_group_text_min_length descendant > max_length self then False
      else if a_descendants_group_text_max_length descendant < min_length self then False
      else if similarity_with_siblings descendant < similarity_threshold self then False
      else True)"

text \<open>The first loop: \<open>descendants_tree[descendant.parent_selector].append(descendant)\<close>.\<close>

definition descendants_tree ::
  "list_extractor \<Rightarrow> element list \<Rightarrow> (string \<times> element list) list" where
  "descendants_tree self descendants =
     fold (\<lambda>descendant tree.
             if is_candidate self descendant
             then dict_append (parent_selector descendant) descendant tree
             else tree)
          descendants []"

text \<open>
  The test \<open>last_selector and selector and last_selector.startswith(selector)\<close>:
  \<open>None\<close> and the empty string are falsy.
\<close>

definition is_parent_block :: "string option \<Rightarrow> string \<Rightarrow> bool" where
  "is_parent_block last_selector selector =
     (case last_selector of
        None \<Rightarrow> False
      | Some l \<Rightarrow> l \<noteq> [] \<and> selector \<noteq> [] \<and> prefix selector l)"

text \<open>The second loop, over the selectors it is given, carrying \<open>last_selector\<close>.\<close>

fun cut_loop ::
  "string option \<Rightarrow> string list \<Rightarrow> (string \<times> 'v) list \<Rightarrow> (string \<times> 'v) list" where
  "cut_loop last_selector [] tree = tree"
| "cut_loop last_selector (selector # selectors) tree =
     cut_loop (Some selector) selectors
       (if is_parent_block last_selector selector then dict_del selector tree else tree)"

text \<open>
  \<open>selectors = sorted(list(descendants_tree.keys()))\<close>, then the loop over
  \<open>selectors[::-1]\<close> with \<open>last_selector = None\<close>.
\<close>

definition cut_tree :: "(string \<times> 'v) list \<Rightarrow> (string \<times> 'v) list" where
  "cut_tree tree = cut_loop None (rev (sort (map fst tree))) tree"

text \<open>
  \<open>_build_clusters\<close>. The functions \<open>descendants_of_body\<close> and \<open>cluster_dict\<close>
  live in other modules: the list \<open>descendants\<close> is what the former returns for
  the page, and the latter is the parameter \<open>cluster_dict\<close>, which maps the cut
  tree to a dictionary from cluster id to cluster.
\<close>

definition build_clusters ::
  "list_extractor \<Rightarrow> ((string \<times> element list) list \<Rightarrow> (int \<times> element list) list)
     \<Rightarrow> element list \<Rightarrow> (int \<times> element list) list" where
  "build_clusters self cluster_dict descendants =
     cluster_dict (cut_tree (descendants_tree self descendants))"

section \<open>Cluster scorer (\<open>_choose_best_cluster\<close>)\<close>

text \<open>The score as a function of a real similarity: \<open>s * log10(n + 1)\<close>.\<close>

definition clusters_score :: "real \<Rightarrow> nat \<Rightarrow> real" where
  "clusters_score avg_similarity number_of_elements =
     avg_similarity * log 10 (real number_of_elements + 1)"

text \<open>
  The score as the loop computes it:
  \<open>avg_similarity_with_siblings * np.log10(number_of_elements + 1)\<close>.
\<close>

definition float_clusters_score :: "float_ops \<Rightarrow> real \<Rightarrow> nat \<Rightarrow> real" where
  "float_clusters_score fl avg_similarity number_of_elements =
     fmul fl avg_similarity (np_log10 fl (real number_of_elements + 1))"

text \<open>The score of one cluster; NaN propagates through the product.\<close>

definition score_of_cluster :: "float_ops \<Rightarrow> element list \<Rightarrow> real option" where
  "score_of_cluster fl cluster =
     map_option (\<lambda>avg. float_clusters_score fl avg (length cluster))
       (np_mean fl (map similarity_with_siblings cluster))"

text \<open>
  One iteration of the loop on the pair
  \<open>(clusters_score_arg_max, clusters_score_max)\<close>. A comparison with NaN is false.
\<close>

definition score_step ::
  "float_ops \<Rightarrow> int \<times> element list \<Rightarrow> int \<times> real \<Rightarrow> int \<times> real" where
  "score_step fl entry best =
     (case score_of_cluster fl (snd entry) of
        None \<Rightarrow> best
      | Some score \<Rightarrow> if score > snd best then (fst entry, score) else best)"

text \<open>
  The loop starts from \<open>clusters_score_arg_max = 0\<close> and \<open>clusters_score_max = -1\<close>;
  \<open>clusters[clusters_score_arg_max]\<close> raises \<open>KeyError\<close> on a missing key.
\<close>

definition choose_best_cluster ::
  "float_ops \<Rightarrow> (int \<times> element list) list \<Rightarrow> error + element list" where
  "choose_best_cluster fl clusters =
     (case map_of clusters (fst (fold (score_step fl) clusters (0, - 1))) of
        None \<Rightarrow> Inl KeyError
      | Some best_cluster \<Rightarrow> Inr best_cluster)"

section \<open>Title extractor (\<open>_extract_from_cluster\<close>)\<close>

text \<open>The first pair of nested loops: the probabilities grouped by path.\<close>

definition probabilities_of_title ::
  "float_ops \<Rightarrow> list_extractor \<Rightarrow> element list \<Rightarrow> (string \<times> real list) list" where
  "probabilities_of_title fl self cluster =
     fold (\<lambda>element.
             fold (\<lambda>descendant.
                     dict_append (path descendant)
                       (float_probability_of_title_with_length fl self
                          (length (anchor_text descendant))))
                  (a_descendants element))
          cluster []"

text \<open>\<open>{k: np.mean(v) for k, v in probabilities_of_title.items()}\<close>\<close>

definition probabilities_of_title_avg ::
  "float_ops \<Rightarrow> list_extractor \<Rightarrow> element list \<Rightarrow> (string \<times> real option) list" where
  "probabilities_of_title_avg fl self cluster =
     map (\<lambda>kv. (fst kv, np_mean fl (snd kv))) (probabilities_of_title fl self cluster)"

text \<open>Float comparison \<open>a > b\<close>, false when either side is NaN.\<close>

fun float_gt :: "real option \<Rightarrow> real option \<Rightarrow> bool" where
  "float_gt (Some a) (Some b) = (a > b)"
| "float_gt _ _ = False"

text \<open>
  Python's \<open>max(iterable, key=...)\<close>: \<open>ValueError\<close> on an empty iterable,
  otherwise the first item whose key no later item exceeds.
\<close>

fun py_max :: "('a \<Rightarrow> real option) \<Rightarrow> 'a list \<Rightarrow> error + 'a" where
  "py_max key [] = Inl ValueError"
| "py_max key (x # xs) =
     Inr (fold (\<lambda>y best. if float_gt (key y) (key best) then y else best) xs x)"

text \<open>\<open>best_path = max(probabilities_of_title_avg.items(), key=operator.itemgetter(1))[0]\<close>\<close>

definition best_path ::
  "float_ops \<Rightarrow> list_extractor \<Rightarrow> element list \<Rightarrow> error + string" where
  "best_path fl self cluster =
     (case py_max snd (probabilities_of_title_avg fl self cluster) of
        Inl e \<Rightarrow> Inl e
      | Inr kv \<Rightarrow> Inr (fst kv))"

text \<open>
  The body of the second pair of nested loops for one anchor: \<open>result\<close> is
  returned unchanged on each \<open>continue\<close>, and extended by one record otherwise.
\<close>

definition extract_anchor :: "string \<Rightarrow> anchor \<Rightarrow> item list \<Rightarrow> item list" where
  "extract_anchor bp descendant result =
     (if path descendant \<noteq> bp then result
      else case attrib descendant ''href'' of
             None \<Rightarrow> result
           | Some href \<Rightarrow>
               if href = [] then result
               else result @
                 [\<lparr>title = anchor_text descendant,
                   url = (if prefix ''//'' href then ''http:'' @ href else href)\<rparr>])"

definition extract_with_path :: "string \<Rightarrow> element list \<Rightarrow> item list" where
  "extract_with_path bp cluster =
     fold (\<lambda>element. fold (extract_anchor bp) (a_descendants element)) cluster []"

definition extract_from_cluster ::
  "float_ops \<Rightarrow> list_extractor \<Rightarrow> element list \<Rightarrow> error + item list" where
  "extract_from_cluster fl self cluster =
     (case best_path fl self cluster of
        Inl e \<Rightarrow> Inl e
      | Inr bp \<Rightarrow> Inr (extract_with_path bp cluster))"

section \<open>The pipeline (\<open>process\<close>)\<close>

text \<open>
  \<open>process\<close> after \<open>preprocess4list\<close>: build the clusters, choose the best one,
  extract from it. No exception is caught on the way.
\<close>

definition process ::
  "float_ops \<Rightarrow> list_extractor
     \<Rightarrow> ((string \<times> element list) list \<Rightarrow> (int \<times> element list) list)
     \<Rightarrow> element list \<Rightarrow> error + item list" where
  "process fl self cluster_dict descendants =
     (case choose_best_cluster fl (build_clusters self cluster_dict descendants) of
        Inl e \<Rightarrow> Inl e
      | Inr best_cluster \<Rightarrow> extract_from_cluster fl self best_cluster)"

section \<open>Example pages\<close>

text \<open>
  An element that passes the candidate filter of \<open>default_extractor\<close>, under
  the given parent selector and with the given anchors.
\<close>

definition example_element :: "string \<Rightarrow> anchor list \<Rightarrow> element" where
  "example_element selector anchors =
     \<lparr>number_of_siblings = 5, parent_selector = selector,
      a_descendants_group_text_min_length = 10, a_descendants_group_text_max_length = 20,
      similarity_with_siblings = 9 / 10, a_descendants = anchors\<rparr>"

text \<open>A page whose second element has too few siblings.\<close>

definition example_page_mixed :: "element list" where
  "example_page_mixed =
     [example_element ''ul'' [],
      (example_element ''ul'' [])\<lparr>number_of_siblings := 2\<rparr>,
      (example_element ''ul'' [])\<lparr>similarity_with_siblings := 95 / 100\<rparr>]"

text \<open>A page with a list nested in another list, and a second list.\<close>

definition example_page_nested :: "element list" where
  "example_page_nested =
     [example_element ''ul'' [], example_element ''ul>li'' [], example_element ''ol'' []]"

text \<open>Two clusters, of one and of two elements.\<close>

definition example_clusters :: "(int \<times> element list) list" where
  "example_clusters =
     [(0, [example_element ''ul'' []]),
      (1, [example_element ''ol'' [], example_element ''ol'' []])]"

text \<open>A cluster with a protocol-relative link and a site-relative link.\<close>

definition example_link_cluster :: "element list" where
  "example_link_cluster =
     [example_element ''ul''
        [\<lparr>anchor_text = ''first'', attrib = [''href'' \<mapsto> ''//example.com/a''],
          path = ''a''\<rparr>],
      example_element ''ul''
        [\<lparr>anchor_text = ''second'', attrib = [''href'' \<mapsto> ''/a''], path = ''a''\<rparr>]]"

text \<open>A cluster whose second anchor has no \<open>href\<close> and whose third has an empty one.\<close>

definition example_href_cluster :: "element list" where
  "example_href_cluster =
     [example_element ''ul''
        [\<lparr>anchor_text = ''one'', attrib = [''href'' \<mapsto> ''/1''], path = ''a''\<rparr>,
         \<lparr>anchor_text = ''two'', attrib = Map.empty, path = ''a''\<rparr>],
      example_element ''ul''
        [\<lparr>anchor_text = ''three'', attrib = [''href'' \<mapsto> []], path = ''a''\<rparr>,
         \<lparr>anchor_text = ''four'', attrib = [''href'' \<mapsto> ''/4''], path = ''a''\<rparr>]]"

text \<open>
  A cluster with a short linked anchor and, on another path, an anchor of 21
  characters without \<open>href\<close>.
\<close>

definition example_vote_cluster :: "element list" where
  "example_vote_cluster =
     [example_element ''ul''
        [\<lparr>anchor_text = ''top'', attrib = [''href'' \<mapsto> ''/a''], path = ''a''\<rparr>,
         \<lparr>anchor_text = ''Breaking news article'', attrib = Map.empty,
           path = ''span/a''\<rparr>]]"

text \<open>The same cluster without the anchor that has no \<open>href\<close>.\<close>

definition example_vote_cluster_linked :: "element list" where
  "example_vote_cluster_linked =
     [example_element ''ul''
        [\<lparr>anchor_text = ''top'', attrib = [''href'' \<mapsto> ''/a''], path = ''a''\<rparr>]]"

text \<open>A page on which no element has enough siblings.\<close>

definition example_page_sparse :: "element list" where
  "example_page_sparse =
     [(example_element ''ul'' [])\<lparr>number_of_siblings := 2\<rparr>,
      (example_element ''ol'' [])\<lparr>number_of_siblings := 3\<rparr>]"

text \<open>A clustering that puts each selector in a cluster of its own, numbered from 0.\<close>

definition example_cluster_dict ::
  "(string \<times> element list) list \<Rightarrow> (int \<times> element list) list" where
  "example_cluster_dict tree = zip (map int [0..<length tree]) (map snd tree)"

section \<open>The title likelihood peaks at the average length\<close>



section \<open>The cluster score is monotone\<close>



section \<open>The candidate filter\<close>

lemma dict_append_keys:
  "map fst (dict_append k v d) = (if k \<in> fst ` set d then map fst d else map fst d @ [k])"
  by (induction d) force+

lemma dict_append_distinct:
  "distinct (map fst d) \<Longrightarrow> distinct (map fst (dict_append k v d))"
  by (simp add: dict_append_keys)

lemma map_of_dict_append:
  "map_of (dict_append k v d) k' =
     (if k' = k then Some ((case map_of d k of None \<Rightarrow> [] | Some vs \<Rightarrow> vs) @ [v])
      else map_of d k')"
  by (induction d) auto

lemma fold_group_distinct:
  "distinct (map fst tree) \<Longrightarrow>
   distinct (map fst (fold (\<lambda>d t. if P d then dict_append (key d) d t else t) ds tree))"
  by (induction ds arbitrary: tree) (simp_all add: dict_append_distinct)

lemma fold_group_map_of:
  "map_of (fold (\<lambda>d t. if P d then dict_append (key d) d t else t) ds tree) s =
     (if filter (\<lambda>d. P d \<and> key d = s) ds = [] then map_of tree s
      else Some ((case map_of tree s of None \<Rightarrow> [] | Some vs \<Rightarrow> vs)
                   @ filter (\<lambda>d. P d \<and> key d = s) ds))"
proof (induction ds arbitrary: tree)
  case Nil
  show ?case by simp
next
  case (Cons d ds)
  show ?case
    by (simp add: Cons.IH map_of_dict_append split: option.splits)
qed

lemma descendants_tree_distinct: "distinct (map fst (descendants_tree self ds))"
  unfolding descendants_tree_def by (rule fold_group_distinct) simp

lemma descendants_tree_map_of:
  "map_of (descendants_tree self ds) s =
     (if filter (\<lambda>d. is_candidate self d \<and> parent_selector d = s) ds = [] then None
      else Some (filter (\<lambda>d. is_candidate self d \<and> parent_selector d = s) ds))"
  unfolding descendants_tree_def by (simp add: fold_group_map_of)

lemma is_candidate_iff:
  "is_candidate self d \<longleftrightarrow>
     min_number self \<le> number_of_siblings d + 1
     \<and> \<not> (a_descendants_group_text_min_length d > max_length self
          \<or> a_descendants_group_text_max_length d < min_length self)
     \<and> similarity_threshold self \<le> similarity_with_siblings d"
  by (auto simp: is_candidate_def)

text \<open>
  C3: every element in the mapping before the cut has enough siblings, a text
  length range that meets \<open>[min_length, max_length]\<close> and a similarity of at
  least the threshold, and sits under its own parent selector; the entry of a
  selector is the list of all such elements of the page, in page order.
\<close>

theorem candidate_filter_groups_qualifying_nodes:
  assumes "(selector, members) \<in> set (descendants_tree self descendants)"
  shows "(\<forall>d \<in> set members.
            min_number self \<le> number_of_siblings d + 1
            \<and> \<not> (a_descendants_group_text_min_length d > max_length self
                 \<or> a_descendants_group_text_max_length d < min_length self)
            \<and> similarity_threshold self \<le> similarity_with_siblings d
            \<and> parent_selector d = selector)
         \<and> members =
             filter (\<lambda>d. (min_number self \<le> number_of_siblings d + 1
                          \<and> \<not> (a_descendants_group_text_min_length d > max_length self
                               \<or> a_descendants_group_text_max_length d < min_length self)
                          \<and> similarity_threshold self \<le> similarity_with_siblings d)
                         \<and> parent_selector d = selector) descendants"
proof -
  have "map_of (descendants_tree self descendants) selector = Some members"
    using assms descendants_tree_distinct by (simp add: map_of_eq_Some_iff)
  then have g: "members =
      filter (\<lambda>d. is_candidate self d \<and> parent_selector d = selector) descendants"
    by (simp add: descendants_tree_map_of split: if_splits)
  have "\<forall>d \<in> set members. is_candidate self d \<and> parent_selector d = selector"
    by (simp add: g)
  then show ?thesis
    using g by (simp add: is_candidate_iff)
qed

lemma descendants_tree_mixed:
  "descendants_tree default_extractor example_page_mixed =
     [(''ul'', [example_element ''ul'' [],
                (example_element ''ul'' [])\<lparr>similarity_with_siblings := 95 / 100\<rparr>])]"
  by (simp add: descendants_tree_def is_candidate_def default_extractor_def
      example_page_mixed_def example_element_def)

theorem candidate_filter_groups_qualifying_nodes_witness:
  "(''ul'', [example_element ''ul'' [],
             (example_element ''ul'' [])\<lparr>similarity_with_siblings := 95 / 100\<rparr>])
     \<in> set (descendants_tree default_extractor example_page_mixed)
   \<and> min_number default_extractor
       \<le> number_of_siblings
            ((example_element ''ul'' [])\<lparr>similarity_with_siblings := 95 / 100\<rparr>) + 1
   \<and> \<not> (a_descendants_group_text_min_length
              ((example_element ''ul'' [])\<lparr>similarity_with_siblings := 95 / 100\<rparr>)
            > max_length default_extractor
          \<or> a_descendants_group_text_max_length
              ((example_element ''ul'' [])\<lparr>similarity_with_siblings := 95 / 100\<rparr>)
            < min_length default_extractor)
   \<and> similarity_threshold default_extractor
       \<le> similarity_with_siblings
            ((example_element ''ul'' [])\<lparr>similarity_with_siblings := 95 / 100\<rparr>)
   \<and> parent_selector
         ((example_element ''ul'' [])\<lparr>similarity_with_siblings := 95 / 100\<rparr>) = ''ul''"
proof -
  have h: "(''ul'', [example_element ''ul'' [],
                     (example_element ''ul'' [])\<lparr>similarity_with_siblings := 95 / 100\<rparr>])
             \<in> set (descendants_tree default_extractor example_page_mixed)"
    by (simp add: descendants_tree_mixed)
  from candidate_filter_groups_qualifying_nodes [OF h] h show ?thesis
    by simp
qed

section \<open>The tree cut\<close>

text \<open>
  In the lexicographic order a prefix comes first, and the strings that lie
  between a string and one of its extensions extend it too: in the sorted list
  of selectors, a selector that some other selector extends is extended by its
  immediate successor.
\<close>

lemma prefix_imp_le:
  fixes s t :: "'a::linorder list"
  shows "prefix s t \<Longrightarrow> s \<le> t"
proof (induction s arbitrary: t)
  case Nil
  show ?case by simp
next
  case (Cons a s)
  then obtain t' where "t = a # t'" "prefix s t'"
    by (cases t) auto
  with Cons.IH show ?case by simp
qed

lemma strict_prefix_imp_less:
  fixes s t :: "'a::linorder list"
  shows "strict_prefix s t \<Longrightarrow> s < t"
  using prefix_imp_le [of s t] by (auto simp: strict_prefix_def)

lemma prefix_between:
  fixes s u t :: "'a::linorder list"
  shows "s \<le> u \<Longrightarrow> u \<le> t \<Longrightarrow> prefix s t \<Longrightarrow> prefix s u"
proof (induction s arbitrary: u t)
  case Nil
  show ?case by simp
next
  case (Cons a s)
  from Cons.prems(3) obtain t' where t: "t = a # t'" "prefix s t'"
    by (cases t) auto
  from Cons.prems(1) obtain b u' where u: "u = b # u'"
    by (cases u) auto
  from Cons.prems(1,2) have "b = a" "s \<le> u'" "u' \<le> t'"
    unfolding t u by auto
  with Cons.IH [of u' t'] t show ?case
    unfolding u by simp
qed

lemma cut_loop_descending:
  assumes "sorted_wrt (\<lambda>a b. b < a) ss"
    and "\<forall>l. last_selector = Some l \<longrightarrow> (\<forall>s \<in> set ss. s < l)"
  shows "cut_loop last_selector ss tree =
           filter (\<lambda>kv. \<not> (fst kv \<in> set ss \<and> fst kv \<noteq> []
                         \<and> (\<exists>t \<in> set ss \<union> set_option last_selector. strict_prefix (fst kv) t)))
                  tree"
  using assms
proof (induction ss arbitrary: last_selector tree)
  case Nil
  show ?case by simp
next
  case (Cons x xs)
  have xs_less: "\<forall>s \<in> set xs. s < x"
    using Cons.prems(1) by simp
  have sorted_xs: "sorted_wrt (\<lambda>a b. b < a) xs"
    using Cons.prems(1) by simp
  have x_notin: "x \<notin> set xs"
    using xs_less by auto
  let ?tree' = "if is_parent_block last_selector x then dict_del x tree else tree"
  have IH: "cut_loop (Some x) xs ?tree' =
              filter (\<lambda>kv. \<not> (fst kv \<in> set xs \<and> fst kv \<noteq> []
                            \<and> (\<exists>t \<in> set xs \<union> {x}. strict_prefix (fst kv) t))) ?tree'"
    using Cons.IH [of "Some x" ?tree'] sorted_xs xs_less by simp
  have head: "is_parent_block last_selector x \<longleftrightarrow>
                x \<noteq> [] \<and> (\<exists>t \<in> set (x # xs) \<union> set_option last_selector. strict_prefix x t)"
  proof
    assume "is_parent_block last_selector x"
    then obtain l where l: "last_selector = Some l" "x \<noteq> []" "prefix x l"
      by (auto simp: is_parent_block_def split: option.splits)
    with Cons.prems(2) have "x < l" by simp
    with l show "x \<noteq> [] \<and> (\<exists>t \<in> set (x # xs) \<union> set_option last_selector. strict_prefix x t)"
      by (auto simp: strict_prefix_def)
  next
    assume r: "x \<noteq> [] \<and> (\<exists>t \<in> set (x # xs) \<union> set_option last_selector. strict_prefix x t)"
    then obtain t where t: "t \<in> set (x # xs) \<union> set_option last_selector" "strict_prefix x t"
      by blast
    from t(2) have "x < t" by (rule strict_prefix_imp_less)
    with t(1) xs_less have "last_selector = Some t"
      by (cases last_selector) (auto dest: less_asym)
    with r t(2) show "is_parent_block last_selector x"
      by (auto simp: is_parent_block_def strict_prefix_def)
  qed
  have tail: "(\<exists>t \<in> set xs \<union> {x}. strict_prefix k t) \<longleftrightarrow>
              (\<exists>t \<in> set (x # xs) \<union> set_option last_selector. strict_prefix k t)"
    if k: "k \<in> set xs" for k
  proof
    assume "\<exists>t \<in> set xs \<union> {x}. strict_prefix k t"
    then show "\<exists>t \<in> set (x # xs) \<union> set_option last_selector. strict_prefix k t"
      by auto
  next
    assume "\<exists>t \<in> set (x # xs) \<union> set_option last_selector. strict_prefix k t"
    then obtain t where t: "t \<in> set (x # xs) \<union> set_option last_selector" "strict_prefix k t"
      by blast
    show "\<exists>t \<in> set xs \<union> {x}. strict_prefix k t"
    proof (cases "t \<in> set (x # xs)")
      case True
      with t(2) show ?thesis by auto
    next
      case False
      with t(1) have l: "last_selector = Some t"
        by (cases last_selector) auto
      with Cons.prems(2) have "x \<le> t" by (simp add: less_imp_le)
      moreover from k xs_less have "k \<le> x" "k \<noteq> x" by auto
      moreover from t(2) have "prefix k t" by (simp add: strict_prefix_def)
      ultimately have "strict_prefix k x"
        using prefix_between [of k x t] by (simp add: strict_prefix_def)
      then show ?thesis by auto
    qed
  qed
  have pred: "(\<not> (fst kv \<in> set xs \<and> fst kv \<noteq> []
                   \<and> (\<exists>t \<in> set xs \<union> {x}. strict_prefix (fst kv) t))
               \<and> \<not> (is_parent_block last_selector x \<and> fst kv = x))
              \<longleftrightarrow>
              \<not> (fst kv \<in> set (x # xs) \<and> fst kv \<noteq> []
                  \<and> (\<exists>t \<in> set (x # xs) \<union> set_option last_selector.
                         strict_prefix (fst kv) t))" for kv :: "string \<times> 'a"
  proof (cases "fst kv = x")
    case True
    with x_notin head show ?thesis by auto
  next
    case False
    show ?thesis
    proof (cases "fst kv \<in> set xs")
      case True
      with False tail [of "fst kv"] show ?thesis by auto
    next
      case False
      with \<open>fst kv \<noteq> x\<close> show ?thesis by auto
    qed
  qed
  have "cut_loop last_selector (x # xs) tree = cut_loop (Some x) xs ?tree'"
    by simp
  also have "\<dots> = filter (\<lambda>kv. \<not> (fst kv \<in> set xs \<and> fst kv \<noteq> []
                            \<and> (\<exists>t \<in> set xs \<union> {x}. strict_prefix (fst kv) t))) ?tree'"
    by (rule IH)
  also have "?tree' = filter (\<lambda>kv. \<not> (is_parent_block last_selector x \<and> fst kv = x)) tree"
    by (simp add: dict_del_def)
  also have "filter (\<lambda>kv. \<not> (fst kv \<in> set xs \<and> fst kv \<noteq> []
                            \<and> (\<exists>t \<in> set xs \<union> {x}. strict_prefix (fst kv) t)))
               (filter (\<lambda>kv. \<not> (is_parent_block last_selector x \<and> fst kv = x)) tree)
             = filter (\<lambda>kv. \<not> (fst kv \<in> set (x # xs) \<and> fst kv \<noteq> []
                  \<and> (\<exists>t \<in> set (x # xs) \<union> set_option last_selector.
                         strict_prefix (fst kv) t))) tree"
    unfolding filter_filter using pred by (intro filter_cong refl) blast
  finally show ?case .
qed

lemma cut_tree_filter:
  assumes "distinct (map fst tree)"
  shows "cut_tree tree =
           filter (\<lambda>kv. \<not> (fst kv \<noteq> [] \<and> (\<exists>t \<in> fst ` set tree. strict_prefix (fst kv) t))) tree"
proof -
  have "sorted_wrt (\<lambda>a b. b < a) (rev (sort (map fst tree)))"
    using assms by (simp add: sorted_wrt_rev strict_sorted_iff)
  then have "cut_tree tree =
      filter (\<lambda>kv. \<not> (fst kv \<in> set (rev (sort (map fst tree))) \<and> fst kv \<noteq> []
                     \<and> (\<exists>t \<in> set (rev (sort (map fst tree))) \<union> set_option None.
                           strict_prefix (fst kv) t))) tree"
    unfolding cut_tree_def by (intro cut_loop_descending) simp_all
  also have "\<dots> = filter (\<lambda>kv. \<not> (fst kv \<noteq> [] \<and> (\<exists>t \<in> fst ` set tree. strict_prefix (fst kv) t))) tree"
    by (intro filter_cong refl) auto
  finally show ?thesis .
qed

lemma descendants_tree_keys:
  assumes "s \<in> fst ` set (descendants_tree self ds)"
  shows "\<exists>d \<in> set ds. parent_selector d = s"
proof -
  from assms have "map_of (descendants_tree self ds) s \<noteq> None"
    by (simp add: map_of_eq_None_iff)
  then have "filter (\<lambda>d. is_candidate self d \<and> parent_selector d = s) ds \<noteq> []"
    by (simp add: descendants_tree_map_of split: if_splits)
  then obtain d where "d \<in> set (filter (\<lambda>d. is_candidate self d \<and> parent_selector d = s) ds)"
    by (cases "filter (\<lambda>d. is_candidate self d \<and> parent_selector d = s) ds") auto
  then show ?thesis
    by auto
qed

text \<open>
  C4: on a page whose elements all have a non-empty parent selector, the cut
  keeps the order and the entries of the mapping and drops exactly the entries
  whose selector is a strict prefix of another selector of the mapping. So no
  two retained selectors are in a strict prefix relation, and of two selectors
  of the mapping in that relation the shorter one is dropped.
\<close>

theorem cut_tree_prefix_free:
  assumes "\<forall>d \<in> set descendants. parent_selector d \<noteq> []"
  shows "let tree = descendants_tree self descendants; pruned = cut_tree tree in
     pruned = filter (\<lambda>kv. \<not> (\<exists>t \<in> fst ` set tree. strict_prefix (fst kv) t)) tree
     \<and> (\<forall>a \<in> fst ` set pruned. \<forall>b \<in> fst ` set pruned. \<not> strict_prefix a b)
     \<and> (\<forall>a \<in> fst ` set tree. \<forall>b \<in> fst ` set tree.
           strict_prefix a b \<longrightarrow> a \<notin> fst ` set pruned)"
proof -
  define tree where "tree = descendants_tree self descendants"
  have nonempty: "\<forall>k \<in> fst ` set tree. k \<noteq> []"
    unfolding tree_def using assms descendants_tree_keys by blast
  have "distinct (map fst tree)"
    unfolding tree_def by (rule descendants_tree_distinct)
  then have "cut_tree tree =
      filter (\<lambda>kv. \<not> (fst kv \<noteq> [] \<and> (\<exists>t \<in> fst ` set tree. strict_prefix (fst kv) t))) tree"
    by (rule cut_tree_filter)
  also have "\<dots> = filter (\<lambda>kv. \<not> (\<exists>t \<in> fst ` set tree. strict_prefix (fst kv) t)) tree"
    using nonempty by (intro filter_cong refl) auto
  finally have eq: "cut_tree tree =
      filter (\<lambda>kv. \<not> (\<exists>t \<in> fst ` set tree. strict_prefix (fst kv) t)) tree" .
  have keys: "fst ` set (cut_tree tree) =
      {k \<in> fst ` set tree. \<not> (\<exists>t \<in> fst ` set tree. strict_prefix k t)}"
    unfolding eq by auto
  have "\<forall>a \<in> fst ` set (cut_tree tree). \<forall>b \<in> fst ` set (cut_tree tree). \<not> strict_prefix a b"
    unfolding keys by blast
  moreover have "\<forall>a \<in> fst ` set tree. \<forall>b \<in> fst ` set tree.
          strict_prefix a b \<longrightarrow> a \<notin> fst ` set (cut_tree tree)"
    unfolding keys by blast
  ultimately show ?thesis
    using eq unfolding Let_def tree_def by blast
qed

lemma descendants_tree_nested:
  "descendants_tree default_extractor example_page_nested =
     [(''ul'', [example_element ''ul'' []]),
      (''ul>li'', [example_element ''ul>li'' []]),
      (''ol'', [example_element ''ol'' []])]"
  by (simp add: descendants_tree_def is_candidate_def default_extractor_def
      example_page_nested_def example_element_def)

theorem cut_tree_prefix_free_witness:
  "cut_tree (descendants_tree default_extractor example_page_nested) =
     [(''ul>li'', [example_element ''ul>li'' []]), (''ol'', [example_element ''ol'' []])]
   \<and> ''ol'' \<in> fst ` set (cut_tree (descendants_tree default_extractor example_page_nested))
   \<and> ''ul>li'' \<in> fst ` set (cut_tree (descendants_tree default_extractor example_page_nested))
   \<and> \<not> strict_prefix ''ol'' ''ul>li''
   \<and> ''ul'' \<in> fst ` set (descendants_tree default_extractor example_page_nested)
   \<and> strict_prefix ''ul'' ''ul>li''
   \<and> ''ul'' \<notin> fst ` set (cut_tree (descendants_tree default_extractor example_page_nested))"
proof -
  have h: "\<forall>d \<in> set example_page_nested. parent_selector d \<noteq> []"
    by (simp add: example_page_nested_def example_element_def)
  have "cut_tree (descendants_tree default_extractor example_page_nested) =
     [(''ul>li'', [example_element ''ul>li'' []]), (''ol'', [example_element ''ol'' []])]"
    using cut_tree_prefix_free [OF h, of default_extractor]
    unfolding Let_def descendants_tree_nested by simp
  then show ?thesis
    by (simp add: descendants_tree_nested)
qed

section \<open>The cluster scorer\<close>

lemma score_of_cluster_nonempty:
  "cluster \<noteq> [] \<Longrightarrow>
   score_of_cluster fl cluster =
     Some (fmul fl (mean_of fl (map similarity_with_siblings cluster))
             (np_log10 fl (real (length cluster) + 1)))"
  by (simp add: score_of_cluster_def np_mean_def float_clusters_score_def)

lemma fold_score_step:
  assumes "\<forall>e \<in> set cs. score_of_cluster fl (snd e) = Some (g (snd e))"
  shows "(fold (score_step fl) cs (k0, m0) = (k0, m0) \<and> (\<forall>e \<in> set cs. g (snd e) \<le> m0))
       \<or> (\<exists>i < length cs.
             fold (score_step fl) cs (k0, m0) = (fst (cs ! i), g (snd (cs ! i)))
             \<and> m0 < g (snd (cs ! i))
             \<and> (\<forall>j < length cs. g (snd (cs ! j)) \<le> g (snd (cs ! i)))
             \<and> (\<forall>j < i. g (snd (cs ! j)) < g (snd (cs ! i))))"
  using assms
proof (induction cs arbitrary: k0 m0)
  case Nil
  show ?case by simp
next
  case (Cons x xs)
  have sx: "score_of_cluster fl (snd x) = Some (g (snd x))"
    using Cons.prems by simp
  have sxs: "\<forall>e \<in> set xs. score_of_cluster fl (snd e) = Some (g (snd e))"
    using Cons.prems by simp
  show ?case
  proof (cases "g (snd x) > m0")
    case True
    then have step: "fold (score_step fl) (x # xs) (k0, m0) = fold (score_step fl) xs (fst x, g (snd x))"
      by (simp add: score_step_def sx)
    from Cons.IH [OF sxs, of "fst x" "g (snd x)"]
    show ?thesis
    proof
      assume a: "fold (score_step fl) xs (fst x, g (snd x)) = (fst x, g (snd x))
                 \<and> (\<forall>e \<in> set xs. g (snd e) \<le> g (snd x))"
      have "\<forall>j < length (x # xs). g (snd ((x # xs) ! j)) \<le> g (snd x)"
      proof (intro allI impI)
        fix j assume "j < length (x # xs)"
        then show "g (snd ((x # xs) ! j)) \<le> g (snd x)"
          using a by (cases j) auto
      qed
      with a True step have
        "0 < length (x # xs)
         \<and> fold (score_step fl) (x # xs) (k0, m0) = (fst ((x # xs) ! 0), g (snd ((x # xs) ! 0)))
         \<and> m0 < g (snd ((x # xs) ! 0))
         \<and> (\<forall>j < length (x # xs). g (snd ((x # xs) ! j)) \<le> g (snd ((x # xs) ! 0)))
         \<and> (\<forall>j < 0. g (snd ((x # xs) ! j)) < g (snd ((x # xs) ! 0)))"
        by simp
      then show ?thesis by blast
    next
      assume "\<exists>i < length xs.
                fold (score_step fl) xs (fst x, g (snd x)) = (fst (xs ! i), g (snd (xs ! i)))
                \<and> g (snd x) < g (snd (xs ! i))
                \<and> (\<forall>j < length xs. g (snd (xs ! j)) \<le> g (snd (xs ! i)))
                \<and> (\<forall>j < i. g (snd (xs ! j)) < g (snd (xs ! i)))"
      then obtain i where i: "i < length xs"
        "fold (score_step fl) xs (fst x, g (snd x)) = (fst (xs ! i), g (snd (xs ! i)))"
        "g (snd x) < g (snd (xs ! i))"
        "\<forall>j < length xs. g (snd (xs ! j)) \<le> g (snd (xs ! i))"
        "\<forall>j < i. g (snd (xs ! j)) < g (snd (xs ! i))"
        by blast
      have le: "\<forall>j < length (x # xs). g (snd ((x # xs) ! j)) \<le> g (snd (xs ! i))"
      proof (intro allI impI)
        fix j assume "j < length (x # xs)"
        then show "g (snd ((x # xs) ! j)) \<le> g (snd (xs ! i))"
          using i(3,4) by (cases j) auto
      qed
      have lt: "\<forall>j < Suc i. g (snd ((x # xs) ! j)) < g (snd (xs ! i))"
      proof (intro allI impI)
        fix j assume "j < Suc i"
        then show "g (snd ((x # xs) ! j)) < g (snd (xs ! i))"
          using i(3,5) by (cases j) auto
      qed
      from i True step le lt have
        "Suc i < length (x # xs)
         \<and> fold (score_step fl) (x # xs) (k0, m0)
             = (fst ((x # xs) ! Suc i), g (snd ((x # xs) ! Suc i)))
         \<and> m0 < g (snd ((x # xs) ! Suc i))
         \<and> (\<forall>j < length (x # xs). g (snd ((x # xs) ! j)) \<le> g (snd ((x # xs) ! Suc i)))
         \<and> (\<forall>j < Suc i. g (snd ((x # xs) ! j)) < g (snd ((x # xs) ! Suc i)))"
        by simp
      then show ?thesis by blast
    qed
  next
    case False
    then have step: "fold (score_step fl) (x # xs) (k0, m0) = fold (score_step fl) xs (k0, m0)"
      by (simp add: score_step_def sx)
    from Cons.IH [OF sxs, of k0 m0]
    show ?thesis
    proof
      assume "fold (score_step fl) xs (k0, m0) = (k0, m0) \<and> (\<forall>e \<in> set xs. g (snd e) \<le> m0)"
      with False step show ?thesis by auto
    next
      assume "\<exists>i < length xs.
                fold (score_step fl) xs (k0, m0) = (fst (xs ! i), g (snd (xs ! i)))
                \<and> m0 < g (snd (xs ! i))
                \<and> (\<forall>j < length xs. g (snd (xs ! j)) \<le> g (snd (xs ! i)))
                \<and> (\<forall>j < i. g (snd (xs ! j)) < g (snd (xs ! i)))"
      then obtain i where i: "i < length xs"
        "fold (score_step fl) xs (k0, m0) = (fst (xs ! i), g (snd (xs ! i)))"
        "m0 < g (snd (xs ! i))"
        "\<forall>j < length xs. g (snd (xs ! j)) \<le> g (snd (xs ! i))"
        "\<forall>j < i. g (snd (xs ! j)) < g (snd (xs ! i))"
        by blast
      have le: "\<forall>j < length (x # xs). g (snd ((x # xs) ! j)) \<le> g (snd (xs ! i))"
      proof (intro allI impI)
        fix j assume "j < length (x # xs)"
        then show "g (snd ((x # xs) ! j)) \<le> g (snd (xs ! i))"
          using i(3,4) False by (cases j) auto
      qed
      have lt: "\<forall>j < Suc i. g (snd ((x # xs) ! j)) < g (snd (xs ! i))"
      proof (intro allI impI)
        fix j assume "j < Suc i"
        then show "g (snd ((x # xs) ! j)) < g (snd (xs ! i))"
          using i(3,5) False by (cases j) auto
      qed
      from i step le lt have
        "Suc i < length (x # xs)
         \<and> fold (score_step fl) (x # xs) (k0, m0)
             = (fst ((x # xs) ! Suc i), g (snd ((x # xs) ! Suc i)))
         \<and> m0 < g (snd ((x # xs) ! Suc i))
         \<and> (\<forall>j < length (x # xs). g (snd ((x # xs) ! j)) \<le> g (snd ((x # xs) ! Suc i)))
         \<and> (\<forall>j < Suc i. g (snd ((x # xs) ! j)) < g (snd ((x # xs) ! Suc i)))"
        by simp
      then show ?thesis by blast
    qed
  qed
qed

text \<open>
  C5: on a non-empty dictionary of non-empty clusters whose elements have
  similarities in \<open>[0, 1]\<close>, \<open>_choose_best_cluster\<close> returns the cluster at the
  first position whose score, the mean similarity times
  \<open>log10(number of elements + 1)\<close> as computed on doubles, is maximal: no
  cluster scores higher, and every cluster before it in iteration order scores
  strictly lower. Of the arithmetic only the signs are used: the mean of
  numbers in \<open>[0, 1]\<close>, the logarithm of a number from 1 on and the product of
  two non-negative numbers are non-negative.
\<close>

theorem choose_best_cluster_first_maximum:
  assumes "distinct (map fst clusters)"
    and "clusters \<noteq> []"
    and "\<forall>entry \<in> set clusters.
           snd entry \<noteq> []
           \<and> (\<forall>e \<in> set (snd entry).
                 0 \<le> similarity_with_siblings e \<and> similarity_with_siblings e \<le> 1)"
    and mean_sign: "\<And>xs. xs \<noteq> [] \<Longrightarrow> \<forall>x \<in> set xs. 0 \<le> x \<and> x \<le> 1 \<Longrightarrow> 0 \<le> mean_of fl xs"
    and log_sign: "\<And>x. 1 \<le> x \<Longrightarrow> 0 \<le> np_log10 fl x"
    and mul_sign: "\<And>a b. 0 \<le> a \<Longrightarrow> 0 \<le> b \<Longrightarrow> 0 \<le> fmul fl a b"
  shows "\<exists>i < length clusters.
           choose_best_cluster fl clusters = Inr (snd (clusters ! i))
           \<and> (\<forall>j < length clusters.
                 fmul fl (mean_of fl (map similarity_with_siblings (snd (clusters ! j))))
                   (np_log10 fl (real (length (snd (clusters ! j))) + 1))
                 \<le> fmul fl (mean_of fl (map similarity_with_siblings (snd (clusters ! i))))
                     (np_log10 fl (real (length (snd (clusters ! i))) + 1)))
           \<and> (\<forall>j < i.
                 fmul fl (mean_of fl (map similarity_with_siblings (snd (clusters ! j))))
                   (np_log10 fl (real (length (snd (clusters ! j))) + 1))
                 < fmul fl (mean_of fl (map similarity_with_siblings (snd (clusters ! i))))
                     (np_log10 fl (real (length (snd (clusters ! i))) + 1)))"
proof -
  define g where "g = (\<lambda>c :: element list.
      fmul fl (mean_of fl (map similarity_with_siblings c)) (np_log10 fl (real (length c) + 1)))"
  have some: "\<forall>e \<in> set clusters. score_of_cluster fl (snd e) = Some (g (snd e))"
    using assms(3) by (simp add: g_def score_of_cluster_nonempty)
  have nonneg: "0 \<le> g (snd e)" if e: "e \<in> set clusters" for e
  proof -
    from assms(3) e have c: "snd e \<noteq> []"
      "\<forall>x \<in> set (map similarity_with_siblings (snd e)). 0 \<le> x \<and> x \<le> 1"
      by auto
    from c have "0 \<le> mean_of fl (map similarity_with_siblings (snd e))"
      by (intro mean_sign) simp_all
    moreover have "0 \<le> np_log10 fl (real (length (snd e)) + 1)"
      by (intro log_sign) simp
    ultimately show ?thesis
      unfolding g_def by (rule mul_sign)
  qed
  obtain x xs where "clusters = x # xs"
    using assms(2) by (cases clusters) auto
  with nonneg [of x] have "\<not> (\<forall>e \<in> set clusters. g (snd e) \<le> - 1)"
    by auto
  with fold_score_step [OF some, of 0 "- 1"]
  obtain i where i: "i < length clusters"
    "fold (score_step fl) clusters (0, - 1) = (fst (clusters ! i), g (snd (clusters ! i)))"
    "\<forall>j < length clusters. g (snd (clusters ! j)) \<le> g (snd (clusters ! i))"
    "\<forall>j < i. g (snd (clusters ! j)) < g (snd (clusters ! i))"
    by blast
  have "clusters ! i \<in> set clusters"
    using i(1) by simp
  then have "map_of clusters (fst (clusters ! i)) = Some (snd (clusters ! i))"
    using assms(1) by (simp add: map_of_eq_Some_iff)
  then have "choose_best_cluster fl clusters = Inr (snd (clusters ! i))"
    by (simp add: choose_best_cluster_def i(2))
  with i(1,3,4) show ?thesis
    unfolding g_def by blast
qed

lemma exact_mean_sign:
  assumes "xs \<noteq> []" and "\<forall>x \<in> set xs. 0 \<le> x \<and> x \<le> 1"
  shows "0 \<le> mean_of exact_arith xs"
proof -
  have "0 \<le> sum_list xs"
    using assms(2) by (intro sum_list_nonneg) auto
  then show ?thesis
    by (simp add: exact_arith_def)
qed

theorem choose_best_cluster_first_maximum_witness:
  "distinct (map fst example_clusters)
   \<and> example_clusters \<noteq> []
   \<and> choose_best_cluster exact_arith example_clusters
       = Inr [example_element ''ol'' [], example_element ''ol'' []]"
proof -
  have h1: "distinct (map fst example_clusters)"
    by (simp add: example_clusters_def)
  have h2: "example_clusters \<noteq> []"
    by (simp add: example_clusters_def)
  have h3: "\<forall>entry \<in> set example_clusters.
         snd entry \<noteq> []
         \<and> (\<forall>e \<in> set (snd entry).
               0 \<le> similarity_with_siblings e \<and> similarity_with_siblings e \<le> 1)"
    by (simp add: example_clusters_def example_element_def)
  have h5: "\<And>x. 1 \<le> x \<Longrightarrow> 0 \<le> np_log10 exact_arith x"
    by (simp add: exact_arith_def)
  have h6: "\<And>a b. 0 \<le> a \<Longrightarrow> 0 \<le> b \<Longrightarrow> 0 \<le> fmul exact_arith a b"
    by (simp add: exact_arith_def)
  from choose_best_cluster_first_maximum [OF h1 h2 h3 exact_mean_sign h5 h6]
  obtain i where i: "i < length example_clusters"
    "choose_best_cluster exact_arith example_clusters = Inr (snd (example_clusters ! i))"
    "\<forall>j < length example_clusters.
       fmul exact_arith
           (mean_of exact_arith (map similarity_with_siblings (snd (example_clusters ! j))))
           (np_log10 exact_arith (real (length (snd (example_clusters ! j))) + 1))
       \<le> fmul exact_arith
           (mean_of exact_arith (map similarity_with_siblings (snd (example_clusters ! i))))
           (np_log10 exact_arith (real (length (snd (example_clusters ! i))) + 1))"
    by blast
  have len: "1 < length example_clusters"
    by (simp add: example_clusters_def)
  have "i \<noteq> 0"
  proof
    assume i0: "i = 0"
    from i(3) len have
      "fmul exact_arith
           (mean_of exact_arith (map similarity_with_siblings (snd (example_clusters ! 1))))
           (np_log10 exact_arith (real (length (snd (example_clusters ! 1))) + 1))
       \<le> fmul exact_arith
           (mean_of exact_arith (map similarity_with_siblings (snd (example_clusters ! i))))
           (np_log10 exact_arith (real (length (snd (example_clusters ! i))) + 1))"
      by blast
    then show False
      unfolding i0 by (simp add: example_clusters_def example_element_def exact_arith_def)
  qed
  with i(1) have "i = 1"
    by (simp add: example_clusters_def)
  with i(2) have "choose_best_cluster exact_arith example_clusters
       = Inr [example_element ''ol'' [], example_element ''ol'' []]"
    by (simp add: example_clusters_def)
  with h1 h2 show ?thesis
    by blast
qed

text \<open>Without rounding, the computed score is \<open>clusters_score\<close>.\<close>

lemma exact_clusters_score:
  "float_clusters_score exact_arith avg_similarity number_of_elements
     = clusters_score avg_similarity number_of_elements"
  by (simp add: float_clusters_score_def clusters_score_def exact_arith_def)

section \<open>The title extractor\<close>

lemma fold_nested_concat:
  "fold (\<lambda>e. fold f (g e)) xs acc = fold f (concat (map g xs)) acc"
  by (induction xs arbitrary: acc) simp_all

lemma fold_extract_anchor:
  "fold (extract_anchor bp) ds result =
     result @ concat (map (\<lambda>d. extract_anchor bp d []) ds)"
proof (induction ds arbitrary: result)
  case Nil
  show ?case by simp
next
  case (Cons d ds)
  have "extract_anchor bp d result = result @ extract_anchor bp d []"
    by (simp add: extract_anchor_def split: option.splits)
  then show ?case
    by (simp add: Cons.IH)
qed

lemma extract_with_path_concat:
  "extract_with_path bp cluster =
     concat (map (\<lambda>d. extract_anchor bp d []) (concat (map a_descendants cluster)))"
  by (simp add: extract_with_path_def fold_nested_concat fold_extract_anchor)

lemma probabilities_of_title_flat:
  "probabilities_of_title fl self cluster =
     fold (\<lambda>d. dict_append (path d)
                 (float_probability_of_title_with_length fl self (length (anchor_text d))))
          (concat (map a_descendants cluster)) []"
  by (simp add: probabilities_of_title_def fold_nested_concat)

lemma dict_append_not_Nil: "dict_append k v d \<noteq> []"
  by (cases d) (auto split: if_splits)

lemma fold_dict_append_not_Nil:
  "ds \<noteq> [] \<or> acc \<noteq> [] \<Longrightarrow> fold (\<lambda>d. dict_append (key d) (val d)) ds acc \<noteq> []"
  by (induction ds arbitrary: acc) (simp_all add: dict_append_not_Nil)

lemma fold_dict_append_Nil:
  "fold (\<lambda>d. dict_append (key d) (val d)) ds acc = [] \<longleftrightarrow> ds = [] \<and> acc = []"
  using fold_dict_append_not_Nil [of ds acc key val] by (cases ds) auto

lemma best_path_error:
  "best_path fl self cluster = Inl e \<longleftrightarrow>
     e = ValueError \<and> concat (map a_descendants cluster) = []"
proof -
  have "best_path fl self cluster = Inl e \<longleftrightarrow>
          py_max snd (probabilities_of_title_avg fl self cluster) = Inl e"
    by (simp add: best_path_def split: sum.splits)
  also have "\<dots> \<longleftrightarrow> e = ValueError \<and> probabilities_of_title_avg fl self cluster = []"
    by (cases "probabilities_of_title_avg fl self cluster") auto
  also have "probabilities_of_title_avg fl self cluster = [] \<longleftrightarrow>
               concat (map a_descendants cluster) = []"
    unfolding probabilities_of_title_avg_def probabilities_of_title_flat map_is_Nil_conv
    by (simp only: fold_dict_append_Nil) simp
  finally show ?thesis .
qed

text \<open>
  C6: every emitted record has a non-empty \<open>url\<close>; it comes from an anchor
  of the cluster with a non-empty \<open>href\<close>, carries that anchor's text as
  title, and its \<open>url\<close> is \<open>http:\<close> followed by the \<open>href\<close> when the
  \<open>href\<close> starts with \<open>//\<close>, and the \<open>href\<close> unchanged otherwise.
\<close>

theorem emitted_url_nonempty_and_normalised:
  assumes "extract_from_cluster fl self cluster = Inr result"
    and "r \<in> set result"
  shows "url r \<noteq> []
         \<and> (\<exists>d \<in> set (concat (map a_descendants cluster)). \<exists>href.
               attrib d ''href'' = Some href \<and> href \<noteq> []
               \<and> title r = anchor_text d
               \<and> url r = (if prefix ''//'' href then ''http:'' @ href else href))"
proof -
  from assms(1) obtain bp where "result = extract_with_path bp cluster"
    by (auto simp: extract_from_cluster_def split: sum.splits)
  with assms(2) obtain d where d: "d \<in> set (concat (map a_descendants cluster))"
    "r \<in> set (extract_anchor bp d [])"
    unfolding extract_with_path_concat by auto
  from d(2) obtain href where h0: "attrib d ''href'' = Some href"
    by (cases "attrib d ''href''") (auto simp: extract_anchor_def split: if_splits)
  with d(2) have h: "attrib d ''href'' = Some href" "href \<noteq> []"
    "r = \<lparr>title = anchor_text d,
          url = (if prefix ''//'' href then ''http:'' @ href else href)\<rparr>"
    by (simp_all add: extract_anchor_def split: if_splits)
  from h(2,3) have "url r \<noteq> []" by simp
  with d(1) h show ?thesis by auto
qed

lemma extract_from_link_cluster:
  "extract_from_cluster exact_arith default_extractor example_link_cluster =
     Inr [\<lparr>title = ''first'', url = ''http://example.com/a''\<rparr>,
          \<lparr>title = ''second'', url = ''/a''\<rparr>]"
  by (simp add: extract_from_cluster_def best_path_def probabilities_of_title_avg_def
      probabilities_of_title_def extract_with_path_def extract_anchor_def
      example_link_cluster_def example_element_def)

theorem emitted_url_nonempty_and_normalised_witness:
  "extract_from_cluster exact_arith default_extractor example_link_cluster =
     Inr [\<lparr>title = ''first'', url = ''http://example.com/a''\<rparr>,
          \<lparr>title = ''second'', url = ''/a''\<rparr>]
   \<and> \<lparr>title = ''first'', url = ''http://example.com/a''\<rparr>
       \<in> set [\<lparr>title = ''first'', url = ''http://example.com/a''\<rparr>,
               \<lparr>title = ''second'', url = ''/a''\<rparr>]
   \<and> url \<lparr>title = ''first'', url = ''http://example.com/a''\<rparr> \<noteq> []
   \<and> (\<exists>d \<in> set (concat (map a_descendants example_link_cluster)). \<exists>href.
         attrib d ''href'' = Some href \<and> href \<noteq> []
         \<and> title \<lparr>title = ''first'', url = ''http://example.com/a''\<rparr> = anchor_text d
         \<and> url \<lparr>title = ''first'', url = ''http://example.com/a''\<rparr>
             = (if prefix ''//'' href then ''http:'' @ href else href))"
proof -
  have m: "\<lparr>title = ''first'', url = ''http://example.com/a''\<rparr>
       \<in> set [\<lparr>title = ''first'', url = ''http://example.com/a''\<rparr>,
               \<lparr>title = ''second'', url = ''/a''\<rparr>]"
    by simp
  from emitted_url_nonempty_and_normalised [OF extract_from_link_cluster m]
    extract_from_link_cluster m
  show ?thesis
    by blast
qed

text \<open>
  C7: when the cluster has an anchor, a best path exists and the extraction
  returns, without error, one record for each anchor on the best path whose
  \<open>href\<close> is present and non-empty, in cluster order then anchor order; an
  anchor without \<open>href\<close> or with an empty one contributes nothing and does not
  affect the records of the others.
\<close>

theorem href_less_anchors_skipped_others_emitted:
  assumes "concat (map a_descendants cluster) \<noteq> []"
  shows "\<exists>bp. best_path fl self cluster = Inr bp
           \<and> extract_from_cluster fl self cluster =
               Inr (map (\<lambda>d. \<lparr>title = anchor_text d,
                               url = (let href = the (attrib d ''href'')
                                      in if prefix ''//'' href then ''http:'' @ href
                                         else href)\<rparr>)
                      (filter (\<lambda>d. path d = bp \<and> attrib d ''href'' \<noteq> None
                                   \<and> attrib d ''href'' \<noteq> Some [])
                         (concat (map a_descendants cluster))))"
proof -
  from assms obtain bp where bp: "best_path fl self cluster = Inr bp"
    using best_path_error [of fl self cluster] by (cases "best_path fl self cluster") auto
  have "concat (map (\<lambda>d. extract_anchor bp d []) ds) =
          map (\<lambda>d. \<lparr>title = anchor_text d,
                     url = (let href = the (attrib d ''href'')
                            in if prefix ''//'' href then ''http:'' @ href else href)\<rparr>)
            (filter (\<lambda>d. path d = bp \<and> attrib d ''href'' \<noteq> None
                         \<and> attrib d ''href'' \<noteq> Some []) ds)" for ds
    by (induction ds) (auto simp: extract_anchor_def split: option.splits)
  with bp show ?thesis
    by (simp add: extract_from_cluster_def extract_with_path_concat)
qed

lemma best_path_href_cluster:
  "best_path exact_arith default_extractor example_href_cluster = Inr ''a''"
  by (simp add: best_path_def probabilities_of_title_avg_def probabilities_of_title_def
      example_href_cluster_def example_element_def)

theorem href_less_anchors_skipped_others_emitted_witness:
  "concat (map a_descendants example_href_cluster) \<noteq> []
   \<and> extract_from_cluster exact_arith default_extractor example_href_cluster =
       Inr [\<lparr>title = ''one'', url = ''/1''\<rparr>, \<lparr>title = ''four'', url = ''/4''\<rparr>]"
proof -
  have h: "concat (map a_descendants example_href_cluster) \<noteq> []"
    by (simp add: example_href_cluster_def example_element_def)
  from href_less_anchors_skipped_others_emitted [OF h, of exact_arith default_extractor]
  have "extract_from_cluster exact_arith default_extractor example_href_cluster =
          Inr (map (\<lambda>d. \<lparr>title = anchor_text d,
                          url = (let href = the (attrib d ''href'')
                                 in if prefix ''//'' href then ''http:'' @ href
                                    else href)\<rparr>)
                 (filter (\<lambda>d. path d = ''a'' \<and> attrib d ''href'' \<noteq> None
                              \<and> attrib d ''href'' \<noteq> Some [])
                    (concat (map a_descendants example_href_cluster))))"
    unfolding best_path_href_cluster by blast
  then have "extract_from_cluster exact_arith default_extractor example_href_cluster =
       Inr [\<lparr>title = ''one'', url = ''/1''\<rparr>, \<lparr>title = ''four'', url = ''/4''\<rparr>]"
    by (simp add: example_href_cluster_def example_element_def)
  with h show ?thesis
    by blast
qed

section \<open>Empty inputs\<close>

text \<open>
  C2: on a cluster without any anchor descendant the dictionary of path
  probabilities is empty, \<open>max\<close> raises \<open>ValueError\<close> and
  \<open>_extract_from_cluster\<close> returns no result.
\<close>

theorem no_anchor_raises_ValueError:
  assumes "concat (map a_descendants cluster) = []"
  shows "extract_from_cluster fl self cluster = Inl ValueError"
proof -
  from assms have "best_path fl self cluster = Inl ValueError"
    by (simp only: best_path_error)
  then show ?thesis
    by (simp add: extract_from_cluster_def)
qed

theorem no_anchor_raises_ValueError_witness:
  "concat (map a_descendants [example_element ''ul'' []]) = []
   \<and> extract_from_cluster exact_arith default_extractor [example_element ''ul'' []] = Inl ValueError"
proof -
  have h: "concat (map a_descendants [example_element ''ul'' []]) = []"
    by (simp add: example_element_def)
  from no_anchor_raises_ValueError [OF h] h show ?thesis
    by blast
qed

text \<open>
  C1: when the cluster dictionary is empty the loop leaves
  \<open>clusters_score_arg_max = 0\<close>, the lookup \<open>clusters[0]\<close> raises
  \<open>KeyError\<close>, and \<open>process\<close> passes the exception on.
\<close>

theorem empty_clusters_raise_KeyError:
  assumes "build_clusters self cluster_dict descendants = []"
  shows "choose_best_cluster fl (build_clusters self cluster_dict descendants) = Inl KeyError
         \<and> process fl self cluster_dict descendants = Inl KeyError"
  using assms by (simp add: choose_best_cluster_def process_def)

theorem empty_clusters_raise_KeyError_witness:
  "build_clusters default_extractor example_cluster_dict example_page_sparse = []
   \<and> process exact_arith default_extractor example_cluster_dict example_page_sparse = Inl KeyError"
proof -
  have "descendants_tree default_extractor example_page_sparse = []"
    by (simp add: descendants_tree_def is_candidate_def default_extractor_def
        example_page_sparse_def example_element_def)
  then have h: "build_clusters default_extractor example_cluster_dict example_page_sparse = []"
    by (simp add: build_clusters_def cut_tree_def example_cluster_dict_def)
  from empty_clusters_raise_KeyError [OF h] h show ?thesis
    by blast
qed

section \<open>Title-path voting\<close>

text \<open>
  The dictionary built by \<open>d[key].append(value)\<close> over a list has the keys in
  order of first occurrence, each with the values of all its occurrences.
\<close>

lemma dict_append_map:
  assumes "distinct ks"
  shows "dict_append k v (map (\<lambda>k'. (k', h k')) ks) =
           (if k \<in> set ks then map (\<lambda>k'. (k', if k' = k then h k' @ [v] else h k')) ks
            else map (\<lambda>k'. (k', h k')) ks @ [(k, [v])])"
  using assms
proof (induction ks)
  case Nil
  show ?case by simp
next
  case (Cons a ks)
  show ?case
  proof (cases "k = a")
    case True
    with Cons.prems have "a \<notin> set ks" by simp
    then have "map (\<lambda>k'. (k', h k')) ks = map (\<lambda>k'. (k', if k' = a then h k' @ [v] else h k')) ks"
      by (intro map_cong refl) auto
    with True show ?thesis by simp
  next
    case False
    with Cons show ?thesis by auto
  qed
qed

lemma fold_dict_append_groups:
  "fold (\<lambda>d. dict_append (key d) (val d)) ds [] =
     map (\<lambda>k. (k, map val (filter (\<lambda>d. key d = k) ds))) (rev (remdups (rev (map key ds))))"
proof (induction ds rule: rev_induct)
  case Nil
  show ?case by simp
next
  case (snoc d ds)
  let ?ks = "rev (remdups (rev (map key ds)))"
  have dist: "distinct ?ks" by simp
  have set_ks: "set ?ks = key ` set ds" by simp
  have "fold (\<lambda>d. dict_append (key d) (val d)) (ds @ [d]) [] =
          dict_append (key d) (val d)
            (map (\<lambda>k. (k, map val (filter (\<lambda>d. key d = k) ds))) ?ks)"
    by (simp add: snoc.IH)
  also have "\<dots> =
      map (\<lambda>k. (k, map val (filter (\<lambda>d. key d = k) (ds @ [d]))))
        (rev (remdups (rev (map key (ds @ [d])))))"
  proof (cases "key d \<in> key ` set ds")
    case True
    then have "dict_append (key d) (val d)
            (map (\<lambda>k. (k, map val (filter (\<lambda>d. key d = k) ds))) ?ks)
        = map (\<lambda>k. (k, if k = key d then map val (filter (\<lambda>d. key d = k) ds) @ [val d]
                         else map val (filter (\<lambda>d. key d = k) ds))) ?ks"
      using dict_append_map [OF dist, of "key d" "val d"
          "\<lambda>k. map val (filter (\<lambda>d. key d = k) ds)"] set_ks
      by simp
    also have "\<dots> = map (\<lambda>k. (k, map val (filter (\<lambda>d. key d = k) (ds @ [d])))) ?ks"
      by (intro map_cong refl) auto
    finally show ?thesis
      using True by simp
  next
    case False
    then have "\<forall>e \<in> set ds. key e \<noteq> key d"
      by (metis imageI)
    then have none: "filter (\<lambda>e. key e = key d) ds = []"
      by (simp add: filter_empty_conv)
    from False have A: "dict_append (key d) (val d)
            (map (\<lambda>k. (k, map val (filter (\<lambda>d. key d = k) ds))) ?ks)
        = map (\<lambda>k. (k, map val (filter (\<lambda>d. key d = k) ds))) ?ks @ [(key d, [val d])]"
      using dict_append_map [OF dist, of "key d" "val d"
          "\<lambda>k. map val (filter (\<lambda>d. key d = k) ds)"] set_ks
      by simp
    have B: "map (\<lambda>k. (k, map val (filter (\<lambda>d. key d = k) ds))) ?ks
        = map (\<lambda>k. (k, map val (filter (\<lambda>d. key d = k) (ds @ [d])))) ?ks"
      using False by (intro map_cong refl) auto
    have C: "map (\<lambda>k. (k, map val (filter (\<lambda>d. key d = k) (ds @ [d]))))
               (rev (remdups (rev (map key (ds @ [d])))))
        = map (\<lambda>k. (k, map val (filter (\<lambda>d. key d = k) (ds @ [d])))) ?ks
            @ [(key d, [val d])]"
      using False none by simp
    show ?thesis
      by (rule trans [OF A]) (simp only: B C)
  qed
  finally show ?case .
qed

lemma py_max_fold_first_maximum:
  assumes "\<forall>y \<in> set (x # xs). key y = Some (g y)"
  shows "\<exists>i < length (x # xs).
           fold (\<lambda>y best. if float_gt (key y) (key best) then y else best) xs x = (x # xs) ! i
           \<and> (\<forall>j < length (x # xs). g ((x # xs) ! j) \<le> g ((x # xs) ! i))
           \<and> (\<forall>j < i. g ((x # xs) ! j) < g ((x # xs) ! i))"
  using assms
proof (induction xs rule: rev_induct)
  case Nil
  show ?case by simp
next
  case (snoc y xs)
  let ?F = "\<lambda>y best. if float_gt (key y) (key best) then y else best"
  from snoc.prems have old: "\<forall>z \<in> set (x # xs). key z = Some (g z)" by simp
  from snoc.IH [OF old] obtain i where i: "i < length (x # xs)"
    "fold ?F xs x = (x # xs) ! i"
    "\<forall>j < length (x # xs). g ((x # xs) ! j) \<le> g ((x # xs) ! i)"
    "\<forall>j < i. g ((x # xs) ! j) < g ((x # xs) ! i)"
    by blast
  from snoc.prems have ky: "key y = Some (g y)" by simp
  from i(1) have "(x # xs) ! i \<in> set (x # xs)" by (rule nth_mem)
  with old have kb: "key ((x # xs) ! i) = Some (g ((x # xs) ! i))" by blast
  have nth_old: "(x # xs @ [y]) ! j = (x # xs) ! j" if "j < length (x # xs)" for j
    using that nth_append [of "x # xs" "[y]" j] by simp
  have nth_new: "(x # xs @ [y]) ! length (x # xs) = y"
    using nth_append_length [of "x # xs" y "[]"] by simp
  have fold_eq: "fold ?F (xs @ [y]) x = ?F y ((x # xs) ! i)"
    by (simp add: i(2))
  show ?case
  proof (cases "g y > g ((x # xs) ! i)")
    case True
    then have r: "fold ?F (xs @ [y]) x = y"
      unfolding fold_eq by (simp add: ky kb)
    have b: "\<forall>j < length (x # xs). g ((x # xs @ [y]) ! j) < g y"
    proof (intro allI impI)
      fix j assume j: "j < length (x # xs)"
      with i(3) have "g ((x # xs) ! j) \<le> g ((x # xs) ! i)" by blast
      with True have "g ((x # xs) ! j) < g y" by linarith
      then show "g ((x # xs @ [y]) ! j) < g y"
        by (simp only: nth_old [OF j])
    qed
    have a: "\<forall>j < length (x # xs @ [y]). g ((x # xs @ [y]) ! j) \<le> g y"
    proof (intro allI impI)
      fix j assume "j < length (x # xs @ [y])"
      then consider "j < length (x # xs)" | "j = length (x # xs)" by fastforce
      then show "g ((x # xs @ [y]) ! j) \<le> g y"
      proof cases
        case 1
        with b have "g ((x # xs @ [y]) ! j) < g y" by blast
        then show ?thesis by (rule less_imp_le)
      next
        case 2
        show ?thesis by (simp only: 2 nth_new order_refl)
      qed
    qed
    have len: "length (x # xs) < length (x # xs @ [y])"
      by simp
    from len r a b have
      "length (x # xs) < length (x # xs @ [y])
       \<and> fold ?F (xs @ [y]) x = (x # xs @ [y]) ! length (x # xs)
       \<and> (\<forall>j < length (x # xs @ [y]).
             g ((x # xs @ [y]) ! j) \<le> g ((x # xs @ [y]) ! length (x # xs)))
       \<and> (\<forall>j < length (x # xs). g ((x # xs @ [y]) ! j) < g ((x # xs @ [y]) ! length (x # xs)))"
      by (simp only: nth_new; blast)
    then show ?thesis by blast
  next
    case False
    then have r: "fold ?F (xs @ [y]) x = (x # xs) ! i"
      unfolding fold_eq by (simp add: ky kb)
    have a: "\<forall>j < length (x # xs @ [y]). g ((x # xs @ [y]) ! j) \<le> g ((x # xs) ! i)"
    proof (intro allI impI)
      fix j assume "j < length (x # xs @ [y])"
      then consider "j < length (x # xs)" | "j = length (x # xs)" by fastforce
      then show "g ((x # xs @ [y]) ! j) \<le> g ((x # xs) ! i)"
      proof cases
        case 1
        with i(3) have "g ((x # xs) ! j) \<le> g ((x # xs) ! i)" by blast
        then show ?thesis by (simp only: nth_old [OF 1])
      next
        case 2
        from False have "g y \<le> g ((x # xs) ! i)" by linarith
        then show ?thesis by (simp only: 2 nth_new)
      qed
    qed
    have b: "\<forall>j < i. g ((x # xs @ [y]) ! j) < g ((x # xs) ! i)"
    proof (intro allI impI)
      fix j assume j: "j < i"
      with i(1) have jl: "j < length (x # xs)" by simp
      from i(4) j have "g ((x # xs) ! j) < g ((x # xs) ! i)" by blast
      then show "g ((x # xs @ [y]) ! j) < g ((x # xs) ! i)"
        by (simp only: nth_old [OF jl])
    qed
    have len: "i < length (x # xs @ [y])"
      using i(1) by simp
    from len r a b have
      "i < length (x # xs @ [y])
       \<and> fold ?F (xs @ [y]) x = (x # xs @ [y]) ! i
       \<and> (\<forall>j < length (x # xs @ [y]). g ((x # xs @ [y]) ! j) \<le> g ((x # xs @ [y]) ! i))
       \<and> (\<forall>j < i. g ((x # xs @ [y]) ! j) < g ((x # xs @ [y]) ! i))"
      by (simp only: nth_old [OF i(1)]; blast)
    then show ?thesis by blast
  qed
qed

lemma probabilities_of_title_groups:
  "probabilities_of_title fl self cluster =
     map (\<lambda>p. (p, map (\<lambda>d. float_probability_of_title_with_length fl self
                               (length (anchor_text d)))
                    (filter (\<lambda>d. path d = p) (concat (map a_descendants cluster)))))
       (rev (remdups (rev (map path (concat (map a_descendants cluster))))))"
  unfolding probabilities_of_title_flat by (rule fold_dict_append_groups)

lemma probabilities_of_title_avg_groups:
  "probabilities_of_title_avg fl self cluster =
     map (\<lambda>p. (p, Some (mean_of fl
                      (map (\<lambda>d. float_probability_of_title_with_length fl self
                                   (length (anchor_text d)))
                         (filter (\<lambda>d. path d = p) (concat (map a_descendants cluster)))))))
       (rev (remdups (rev (map path (concat (map a_descendants cluster))))))"
proof -
  have "filter (\<lambda>d. path d = p) (concat (map a_descendants cluster)) \<noteq> []"
    if "p \<in> set (rev (remdups (rev (map path (concat (map a_descendants cluster))))))" for p
  proof -
    from that obtain d where "d \<in> set (concat (map a_descendants cluster))" "path d = p"
      by auto
    then have "d \<in> set (filter (\<lambda>d. path d = p) (concat (map a_descendants cluster)))"
      by simp
    then show ?thesis
      by (metis empty_iff empty_set)
  qed
  then show ?thesis
    unfolding probabilities_of_title_avg_def probabilities_of_title_groups map_map
    by (intro map_cong refl) (simp add: np_mean_def)
qed


lemma concat_rewrite_attrib:
  "concat (map a_descendants
             (map (\<lambda>e. e\<lparr>a_descendants := map (\<lambda>d. d\<lparr>attrib := f d\<rparr>) (a_descendants e)\<rparr>)
                cluster))
   = map (\<lambda>d. d\<lparr>attrib := f d\<rparr>) (concat (map a_descendants cluster))"
  by (induction cluster) simp_all

lemma probabilities_ignore_attrib:
  "probabilities_of_title fl self
     (map (\<lambda>e. e\<lparr>a_descendants := map (\<lambda>d. d\<lparr>attrib := f d\<rparr>) (a_descendants e)\<rparr>) cluster)
   = probabilities_of_title fl self cluster"
  unfolding probabilities_of_title_flat concat_rewrite_attrib
  by (simp add: fold_map comp_def)

lemma probabilities_of_vote_cluster:
  "probabilities_of_title_avg fl default_extractor example_vote_cluster =
     [(''a'', Some (mean_of fl
         [float_probability_of_title_with_length fl default_extractor (length ''top'')])),
      (''span/a'', Some (mean_of fl
         [float_probability_of_title_with_length fl default_extractor
            (length ''Breaking news article'')]))]"
  by (simp add: probabilities_of_title_avg_def probabilities_of_title_def
      example_vote_cluster_def example_element_def np_mean_def)

lemma best_path_vote_cluster:
  assumes "mean_of fl
             [float_probability_of_title_with_length fl default_extractor (length ''top'')]
           < mean_of fl
               [float_probability_of_title_with_length fl default_extractor
                  (length ''Breaking news article'')]"
  shows "best_path fl default_extractor example_vote_cluster = Inr ''span/a''"
  unfolding best_path_def probabilities_of_vote_cluster using assms by simp

lemma extract_from_vote_cluster:
  assumes "best_path fl default_extractor example_vote_cluster = Inr ''span/a''"
  shows "extract_from_cluster fl default_extractor example_vote_cluster = Inr []"
  unfolding extract_from_cluster_def assms
  by (simp add: extract_with_path_def extract_anchor_def
      example_vote_cluster_def example_element_def)

lemma extract_from_vote_cluster_linked:
  "extract_from_cluster fl default_extractor example_vote_cluster_linked =
     Inr [\<lparr>title = ''top'', url = ''/a''\<rparr>]"
  by (simp add: extract_from_cluster_def best_path_def probabilities_of_title_avg_def
      probabilities_of_title_def extract_with_path_def extract_anchor_def
      example_vote_cluster_linked_def example_element_def)

text \<open>
  C10: the mean likelihood of a path is taken over every anchor descendant of
  every cluster member that has this path, whatever its attributes, and the
  best path is the first path, in order of first occurrence, whose mean is
  maximal. The best path does not change when the attribute dictionaries of
  the anchors are replaced by any others (for instance by empty ones). So an
  anchor without \<open>href\<close> can win the vote for its path: in
  \<open>example_vote_cluster\<close>, when the mean likelihood at its 21 characters is
  above that at 3 characters, it does and nothing is extracted, while without
  it the linked anchor is extracted.
\<close>

theorem title_voting_counts_every_anchor:
  fixes fl :: float_ops and self :: list_extractor and cluster :: "element list"
    and f :: "anchor \<Rightarrow> (string \<rightharpoonup> string)"
  defines "anchors \<equiv> concat (map a_descendants cluster)"
    and "paths \<equiv> rev (remdups (rev (map path (concat (map a_descendants cluster)))))"
    and "mean_vote \<equiv> \<lambda>p. mean_of fl
              (map (\<lambda>d. float_probability_of_title_with_length fl self (length (anchor_text d)))
                 (filter (\<lambda>d. path d = p) (concat (map a_descendants cluster))))"
  shows "probabilities_of_title_avg fl self cluster = map (\<lambda>p. (p, Some (mean_vote p))) paths
    \<and> (anchors \<noteq> [] \<longrightarrow>
         (\<exists>i < length paths.
            best_path fl self cluster = Inr (paths ! i)
            \<and> (\<forall>j < length paths. mean_vote (paths ! j) \<le> mean_vote (paths ! i))
            \<and> (\<forall>j < i. mean_vote (paths ! j) < mean_vote (paths ! i))))
    \<and> best_path fl self
         (map (\<lambda>e. e\<lparr>a_descendants := map (\<lambda>d. d\<lparr>attrib := f d\<rparr>) (a_descendants e)\<rparr>)
            cluster)
        = best_path fl self cluster
    \<and> (mean_of fl
          [float_probability_of_title_with_length fl default_extractor (length ''top'')]
        < mean_of fl
            [float_probability_of_title_with_length fl default_extractor
               (length ''Breaking news article'')]
        \<longrightarrow> best_path fl default_extractor example_vote_cluster = Inr ''span/a''
            \<and> extract_from_cluster fl default_extractor example_vote_cluster = Inr []
            \<and> extract_from_cluster fl default_extractor example_vote_cluster_linked
                = Inr [\<lparr>title = ''top'', url = ''/a''\<rparr>])"
proof -
  have avg: "probabilities_of_title_avg fl self cluster = map (\<lambda>p. (p, Some (mean_vote p))) paths"
    unfolding mean_vote_def paths_def by (rule probabilities_of_title_avg_groups)
  have best: "\<exists>i < length paths.
            best_path fl self cluster = Inr (paths ! i)
            \<and> (\<forall>j < length paths. mean_vote (paths ! j) \<le> mean_vote (paths ! i))
            \<and> (\<forall>j < i. mean_vote (paths ! j) < mean_vote (paths ! i))"
    if ne: "anchors \<noteq> []"
  proof -
    from ne have "paths \<noteq> []"
      unfolding paths_def anchors_def by simp
    then obtain p ps where ps: "paths = p # ps"
      by (cases paths) auto
    define avgs where "avgs = map (\<lambda>p. (p, Some (mean_vote p))) paths"
    have keys: "\<forall>y \<in> set avgs. snd y = Some ((mean_vote \<circ> fst) y)"
      unfolding avgs_def by auto
    have avgs_cons: "avgs = (p, Some (mean_vote p)) # map (\<lambda>p. (p, Some (mean_vote p))) ps"
      unfolding avgs_def ps by simp
    from py_max_fold_first_maximum [of "(p, Some (mean_vote p))"
        "map (\<lambda>p. (p, Some (mean_vote p))) ps" snd "mean_vote \<circ> fst"] keys
    obtain i where i: "i < length avgs"
      "py_max snd avgs = Inr (avgs ! i)"
      "\<forall>j < length avgs. (mean_vote \<circ> fst) (avgs ! j) \<le> (mean_vote \<circ> fst) (avgs ! i)"
      "\<forall>j < i. (mean_vote \<circ> fst) (avgs ! j) < (mean_vote \<circ> fst) (avgs ! i)"
      unfolding avgs_cons by auto
    have len: "length avgs = length paths"
      unfolding avgs_def by simp
    have nth: "fst (avgs ! j) = paths ! j" if "j < length paths" for j
      unfolding avgs_def using that by simp
    have "best_path fl self cluster = Inr (paths ! i)"
      using i(1,2) nth [of i] len
      by (simp add: best_path_def avg avgs_def [symmetric])
    moreover have "\<forall>j < length paths. mean_vote (paths ! j) \<le> mean_vote (paths ! i)"
      using i(1,3) nth len by (metis comp_apply)
    moreover have "\<forall>j < i. mean_vote (paths ! j) < mean_vote (paths ! i)"
      using i(1,4) nth len by (metis comp_apply order_less_trans)
    ultimately show ?thesis
      using i(1) len by auto
  qed
  have inv: "best_path fl self
         (map (\<lambda>e. e\<lparr>a_descendants := map (\<lambda>d. d\<lparr>attrib := f d\<rparr>) (a_descendants e)\<rparr>)
            cluster)
        = best_path fl self cluster"
    by (simp only: best_path_def probabilities_of_title_avg_def probabilities_ignore_attrib)
  have ex: "best_path fl default_extractor example_vote_cluster = Inr ''span/a''
            \<and> extract_from_cluster fl default_extractor example_vote_cluster = Inr []
            \<and> extract_from_cluster fl default_extractor example_vote_cluster_linked
                = Inr [\<lparr>title = ''top'', url = ''/a''\<rparr>]"
    if "mean_of fl
          [float_probability_of_title_with_length fl default_extractor (length ''top'')]
        < mean_of fl
            [float_probability_of_title_with_length fl default_extractor
               (length ''Breaking news article'')]"
    using best_path_vote_cluster [OF that]
      extract_from_vote_cluster [OF best_path_vote_cluster [OF that]]
      extract_from_vote_cluster_linked [of fl]
    by blast
  from avg best inv ex show ?thesis
    by blast
qed

lemma exact_probability:
  "float_probability_of_title_with_length exact_arith self n
     = probability_of_title_with_length self (real n)"
  by (simp add: float_probability_of_title_with_length_def float_avg_length_def
      probability_of_title_with_length_def avg_length_def exact_arith_def)

lemma exact_mean_singleton: "mean_of exact_arith [x] = x"
  by (simp add: exact_arith_def)

lemma probability_less_iff:
  "probability_of_title_with_length self a < probability_of_title_with_length self b
     \<longleftrightarrow> (b - avg_length self)\<^sup>2 < (a - avg_length self)\<^sup>2"
proof -
  have "0 < sqrt (2 * pi) * sigma"
    by (simp add: sigma_def)
  then show ?thesis
    by (simp add: probability_of_title_with_length_def divide_less_cancel sigma_def)
qed

theorem title_voting_counts_every_anchor_witness:
  "concat (map a_descendants example_vote_cluster) \<noteq> []
   \<and> mean_of exact_arith
        [float_probability_of_title_with_length exact_arith default_extractor (length ''top'')]
      < mean_of exact_arith
          [float_probability_of_title_with_length exact_arith default_extractor
             (length ''Breaking news article'')]
   \<and> best_path exact_arith default_extractor example_vote_cluster = Inr ''span/a''
   \<and> extract_from_cluster exact_arith default_extractor example_vote_cluster = Inr []
   \<and> extract_from_cluster exact_arith default_extractor example_vote_cluster_linked
       = Inr [\<lparr>title = ''top'', url = ''/a''\<rparr>]"
proof -
  have h1: "concat (map a_descendants example_vote_cluster) \<noteq> []"
    by (simp add: example_vote_cluster_def example_element_def)
  have h2: "mean_of exact_arith
        [float_probability_of_title_with_length exact_arith default_extractor (length ''top'')]
      < mean_of exact_arith
          [float_probability_of_title_with_length exact_arith default_extractor
             (length ''Breaking news article'')]"
    unfolding exact_mean_singleton exact_probability
    by (simp add: probability_less_iff avg_length_def default_extractor_def power2_eq_square)
  from title_voting_counts_every_anchor
         [where fl = exact_arith and self = default_extractor
            and cluster = example_vote_cluster]
       h1 h2
  show ?thesis
    by blast
qed

end
